theory Spec2Isabelle
  imports Main "HOL-Library.Word" "HOL-Library.AList"
begin

section \<open>The data store of minerva/device/data_store.cpp\<close>

text \<open>
  The store maps a 64-bit id to a \<open>DataState\<close>: one pointer per memory type, the
  element count and the reference count. Every \<open>CHECK\<close> of the source terminates the
  process; the model returns \<open>Inl\<close> of the check that failed and no state. The
  allocators (\<open>calloc\<close>, \<open>free\<close>, \<open>cudaMalloc\<close>, \<open>cudaFree\<close>) are outside the
  source: what they answer during one call is an argument of the call (\<open>backend\<close>),
  and the blocks they hand out are kept in two heaps beside the table. The
  preprocessor flag \<open>HAS_CUDA\<close> is a boolean argument. The mutex is not modelled:
  calls are taken one after the other.

  The table \<open>data_states_\<close> is a list of pairs read with \<open>map_of\<close>; the order of the
  pairs is the order of iteration, on which no result depends. The member is written
  \<open>data_states\<close> and the field \<open>length\<close> is written \<open>length'\<close>. An \<open>int\<close> is a 32-bit
  word compared as a signed number; where C++ leaves signed overflow undefined the model
  wraps around. A \<open>size_t\<close> is a 64-bit word. \<open>MemTypes\<close> has the two memory types; the
  \<open>default\<close> branch of the \<open>switch\<close> in \<open>CreateData\<close> is for values outside them.
\<close>

subsection \<open>Types\<close>

type_synonym data_id = "64 word"   \<comment> \<open>\<open>uint64_t\<close>\<close>
type_synonym size_t = "64 word"    \<comment> \<open>\<open>size_t\<close>, 64 bits; arithmetic wraps\<close>
type_synonym c_int = "32 word"     \<comment> \<open>\<open>int\<close>, read with \<open>sint\<close>; overflow wraps in the model\<close>
type_synonym ptr = nat             \<comment> \<open>an address; \<open>0\<close> is the null pointer\<close>
type_synonym float_bits = "32 word" \<comment> \<open>the four bytes of a \<open>float\<close>; \<open>0\<close> is \<open>+0.0f\<close>\<close>

datatype MemTypes = CPU | GPU

datatype cudaError_t = cudaSuccess | cudaErrorMemoryAllocation | cudaErrorInvalidValue

datatype error =
    AlreadyCreated      \<comment> \<open>"has already been created!"\<close>
  | LengthMismatch      \<comment> \<open>"allocated length mismatch!"\<close>
  | CudaMallocFailed    \<comment> \<open>\<open>CHECK_EQ(cudaMalloc(..), cudaSuccess)\<close>\<close>
  | NoCuda              \<comment> \<open>\<open>CHECK(false)\<close> of a build without \<open>HAS_CUDA\<close>\<close>
  | NotCreated          \<comment> \<open>\<open>CHECK(CheckValidity(id))\<close>: "was not created!"\<close>
  | NullData            \<comment> \<open>\<open>CHECK_NE(ds.data_ptrs[type], 0)\<close>: "was not created!"\<close>
  | DecreaseMoreThanHas \<comment> \<open>"decrease rc more than it has"\<close>
  | InvalidRc           \<comment> \<open>"invalid rc value"\<close>
  | CudaFreeFailed      \<comment> \<open>\<open>CHECK_EQ(cudaFree(ptr), cudaSuccess)\<close>\<close>

record DataState =
  data_ptrs :: "MemTypes \<Rightarrow> ptr"
  length' :: size_t
  reference_count :: c_int

record backend =
  calloc_ret :: ptr                        \<comment> \<open>what \<open>calloc\<close> returns; \<open>0\<close> when it fails\<close>
  cudaMalloc_ret :: "cudaError_t \<times> ptr"   \<comment> \<open>status of \<open>cudaMalloc\<close> and the pointer it stores\<close>
  cudaFree_ret :: cudaError_t              \<comment> \<open>status of \<open>cudaFree\<close>\<close>

record DataStore =
  data_states :: "(data_id \<times> DataState) list"
  host_heap :: "ptr \<rightharpoonup> float_bits list"   \<comment> \<open>blocks obtained from \<open>calloc\<close>, with contents\<close>
  device_heap :: "ptr \<rightharpoonup> size_t"          \<comment> \<open>blocks obtained from \<open>cudaMalloc\<close>, size in bytes\<close>

subsection \<open>Constructors and the table\<close>

text \<open>\<open>DataStore::DataState::DataState()\<close>: length 0, count 0, both pointers null.\<close>

definition DataState_init :: DataState where
  "DataState_init = \<lparr>data_ptrs = (\<lambda>_. 0), length' = 0, reference_count = 0\<rparr>"

definition DataStore_init :: DataStore where
  "DataStore_init = \<lparr>data_states = [], host_heap = Map.empty, device_heap = Map.empty\<rparr>"

text \<open>
  \<open>data_states[id]\<close>: the record of the id, inserted default-constructed when the id
  has none. The result is the record and the table after the access.
\<close>

definition subscript ::
  "(data_id \<times> DataState) list \<Rightarrow> data_id \<Rightarrow> DataState \<times> (data_id \<times> DataState) list" where
  "subscript tbl i =
     (case map_of tbl i of
        Some ds \<Rightarrow> (ds, tbl)
      | None \<Rightarrow> (DataState_init, tbl @ [(i, DataState_init)]))"

definition CheckValidity :: "DataStore \<Rightarrow> data_id \<Rightarrow> bool" where
  "CheckValidity s i = (map_of (data_states s) i \<noteq> None)"

definition aborts :: "error + 'a \<Rightarrow> bool" where
  "aborts r = (case r of Inl _ \<Rightarrow> True | Inr _ \<Rightarrow> False)"

subsection \<open>Operations\<close>

definition CreateData ::
  "bool \<Rightarrow> backend \<Rightarrow> DataStore \<Rightarrow> data_id \<Rightarrow> MemTypes \<Rightarrow> size_t \<Rightarrow> c_int \<Rightarrow> error + DataStore" where
  "CreateData HAS_CUDA be s i type len rc =
     (let (ds, tbl) = subscript (data_states s) i in
      if data_ptrs ds type \<noteq> 0 then Inl AlreadyCreated
      else if \<not> (length' ds = 0 \<or> length' ds = len) then Inl LengthMismatch
      else
        let ds1 = ds\<lparr>length' := len, reference_count := rc\<rparr> in
        (case type of
           CPU \<Rightarrow>
             let p = calloc_ret be in
             Inr (s\<lparr>data_states := AList.update i (ds1\<lparr>data_ptrs := (data_ptrs ds1)(CPU := p)\<rparr>) tbl,
                    host_heap := (if p = 0 then host_heap s
                                  else (host_heap s)(p \<mapsto> replicate (unat len) 0))\<rparr>)
         | GPU \<Rightarrow>
             if HAS_CUDA then
               (case cudaMalloc_ret be of
                  (err, p) \<Rightarrow>
                    if err \<noteq> cudaSuccess then Inl CudaMallocFailed
                    else
                      Inr (s\<lparr>data_states := AList.update i (ds1\<lparr>data_ptrs := (data_ptrs ds1)(GPU := p)\<rparr>) tbl,
                             device_heap := (if p = 0 then device_heap s
                                             else (device_heap s)(p \<mapsto> len * 4))\<rparr>))
             else Inl NoCuda))"

definition GetData :: "DataStore \<Rightarrow> data_id \<Rightarrow> MemTypes \<Rightarrow> error + (ptr \<times> DataStore)" where
  "GetData s i type =
     (if \<not> CheckValidity s i then Inl NotCreated
      else
        let (ds, tbl) = subscript (data_states s) i in
        if data_ptrs ds type = 0 then Inl NullData
        else
          let (ds2, tbl2) = subscript tbl i in
          Inr (data_ptrs ds2 type, s\<lparr>data_states := tbl2\<rparr>))"

definition GC :: "bool \<Rightarrow> backend \<Rightarrow> DataStore \<Rightarrow> data_id \<Rightarrow> error + DataStore" where
  "GC HAS_CUDA be s i =
     (let (ds, tbl) = subscript (data_states s) i;
          hh = (if data_ptrs ds CPU \<noteq> 0 then (host_heap s)(data_ptrs ds CPU := None)
                else host_heap s)
      in
      if HAS_CUDA \<and> data_ptrs ds GPU \<noteq> 0 then
        (if cudaFree_ret be \<noteq> cudaSuccess then Inl CudaFreeFailed
         else Inr \<lparr>data_states = AList.delete i tbl, host_heap = hh,
                    device_heap = (device_heap s)(data_ptrs ds GPU := None)\<rparr>)
      else Inr \<lparr>data_states = AList.delete i tbl, host_heap = hh,
                 device_heap = device_heap s\<rparr>)"

definition DecrReferenceCount ::
  "bool \<Rightarrow> backend \<Rightarrow> DataStore \<Rightarrow> data_id \<Rightarrow> c_int \<Rightarrow> error + (bool \<times> DataStore)" where
  "DecrReferenceCount HAS_CUDA be s i amount =
     (if \<not> CheckValidity s i then Inl NotCreated
      else
        let (ds, tbl) = subscript (data_states s) i in
        if \<not> (sint amount \<le> sint (reference_count ds)) then Inl DecreaseMoreThanHas
        else
          let ds1 = ds\<lparr>reference_count := reference_count ds - amount\<rparr>;
              s1 = s\<lparr>data_states := AList.update i ds1 tbl\<rparr>
          in
          if reference_count ds1 = 0 then
            (case GC HAS_CUDA be s1 i of Inl e \<Rightarrow> Inl e | Inr s2 \<Rightarrow> Inr (True, s2))
          else Inr (False, s1))"

definition IncrReferenceCount ::
  "bool \<Rightarrow> backend \<Rightarrow> DataStore \<Rightarrow> data_id \<Rightarrow> c_int \<Rightarrow> error + (bool \<times> DataStore)" where
  "IncrReferenceCount HAS_CUDA be s i amount = DecrReferenceCount HAS_CUDA be s i (- amount)"

definition SetReferenceCount ::
  "bool \<Rightarrow> backend \<Rightarrow> DataStore \<Rightarrow> data_id \<Rightarrow> c_int \<Rightarrow> error + (bool \<times> DataStore)" where
  "SetReferenceCount HAS_CUDA be s i rc =
     (if \<not> CheckValidity s i then Inl NotCreated
      else if \<not> (0 \<le> sint rc) then Inl InvalidRc
      else
        let (ds, tbl) = subscript (data_states s) i;
            ds1 = ds\<lparr>reference_count := rc\<rparr>;
            s1 = s\<lparr>data_states := AList.update i ds1 tbl\<rparr>
        in
        if reference_count ds1 = 0 then
          (case GC HAS_CUDA be s1 i of Inl e \<Rightarrow> Inl e | Inr s2 \<Rightarrow> Inr (True, s2))
        else Inr (False, s1))"

text \<open>
  \<open>GetReferenceCount\<close> and \<open>GetTotalBytes\<close> are \<open>const\<close> member functions that read the
  table with \<open>find\<close> and with an iteration: they have no table to return.
\<close>

definition GetReferenceCount :: "DataStore \<Rightarrow> data_id \<Rightarrow> error + c_int" where
  "GetReferenceCount s i =
     (if \<not> CheckValidity s i then Inl NotCreated
      else (case map_of (data_states s) i of
              Some ds \<Rightarrow> Inr (reference_count ds)
            | None \<Rightarrow> Inl NotCreated))"

definition GetTotalBytes :: "DataStore \<Rightarrow> MemTypes \<Rightarrow> size_t" where
  "GetTotalBytes s memtype =
     fold (\<lambda>it total_bytes.
             if data_ptrs (snd it) memtype \<noteq> 0 then total_bytes + length' (snd it) * 4
             else total_bytes)
          (data_states s) 0"

definition FreeData :: "bool \<Rightarrow> backend \<Rightarrow> DataStore \<Rightarrow> data_id \<Rightarrow> error + DataStore" where
  "FreeData HAS_CUDA be s i =
     (if \<not> CheckValidity s i then Inl NotCreated else GC HAS_CUDA be s i)"

subsection \<open>Sequences of calls\<close>

datatype call =
    Create data_id MemTypes size_t c_int
  | Get data_id MemTypes
  | IncrRef data_id c_int
  | DecrRef data_id c_int
  | SetRef data_id c_int
  | GetRef data_id
  | TotalBytes MemTypes
  | Free data_id

datatype ret = RVoid | RPtr ptr | RBool bool | RInt c_int | RSize size_t

fun step :: "bool \<Rightarrow> backend \<Rightarrow> DataStore \<Rightarrow> call \<Rightarrow> error + (ret \<times> DataStore)" where
  "step H be s (Create i m n rc) =
     (case CreateData H be s i m n rc of Inl e \<Rightarrow> Inl e | Inr s' \<Rightarrow> Inr (RVoid, s'))"
| "step H be s (Get i m) =
     (case GetData s i m of Inl e \<Rightarrow> Inl e | Inr (p, s') \<Rightarrow> Inr (RPtr p, s'))"
| "step H be s (IncrRef i a) =
     (case IncrReferenceCount H be s i a of Inl e \<Rightarrow> Inl e | Inr (b, s') \<Rightarrow> Inr (RBool b, s'))"
| "step H be s (DecrRef i a) =
     (case DecrReferenceCount H be s i a of Inl e \<Rightarrow> Inl e | Inr (b, s') \<Rightarrow> Inr (RBool b, s'))"
| "step H be s (SetRef i rc) =
     (case SetReferenceCount H be s i rc of Inl e \<Rightarrow> Inl e | Inr (b, s') \<Rightarrow> Inr (RBool b, s'))"
| "step H be s (GetRef i) =
     (case GetReferenceCount s i of Inl e \<Rightarrow> Inl e | Inr rc \<Rightarrow> Inr (RInt rc, s))"
| "step H be s (TotalBytes m) = Inr (RSize (GetTotalBytes s m), s)"
| "step H be s (Free i) =
     (case FreeData H be s i of Inl e \<Rightarrow> Inl e | Inr s' \<Rightarrow> Inr (RVoid, s'))"

text \<open>A run stops at the first call that aborts: the process is gone.\<close>

fun run :: "bool \<Rightarrow> DataStore \<Rightarrow> (backend \<times> call) list \<Rightarrow> error + DataStore" where
  "run H s [] = Inr s"
| "run H s ((be, c) # cs) =
     (case step H be s c of Inl e \<Rightarrow> Inl e | Inr (r, s') \<Rightarrow> run H s' cs)"

fun creates :: "data_id \<Rightarrow> call \<Rightarrow> bool" where
  "creates i (Create j m n rc) = (j = i)"
| "creates i _ = False"

definition never_creates :: "data_id \<Rightarrow> (backend \<times> call) list \<Rightarrow> bool" where
  "never_creates i calls = list_all (\<lambda>bc. \<not> creates i (snd bc)) calls"

subsection \<open>Notions used in the statements\<close>

text \<open>
  The record a \<open>data_states[id]\<close> access yields: the one in the table, or a
  default-constructed one.
\<close>

definition old_state :: "DataStore \<Rightarrow> data_id \<Rightarrow> DataState" where
  "old_state s i = (case map_of (data_states s) i of Some ds \<Rightarrow> ds | None \<Rightarrow> DataState_init)"

text \<open>The ids whose record holds a non-null pointer for a memory type, and their lengths.\<close>

definition holders :: "DataStore \<Rightarrow> MemTypes \<Rightarrow> data_id set" where
  "holders s m =
     {i \<in> set (map fst (data_states s)).
        case map_of (data_states s) i of Some ds \<Rightarrow> data_ptrs ds m \<noteq> 0 | None \<Rightarrow> False}"

definition length_of :: "DataStore \<Rightarrow> data_id \<Rightarrow> size_t" where
  "length_of s i = (case map_of (data_states s) i of Some ds \<Rightarrow> length' ds | None \<Rightarrow> 0)"

text \<open>The block a pointer of a memory type refers to is still allocated.\<close>

definition allocated :: "DataStore \<Rightarrow> MemTypes \<Rightarrow> ptr \<Rightarrow> bool" where
  "allocated s m p = (case m of CPU \<Rightarrow> host_heap s p \<noteq> None | GPU \<Rightarrow> device_heap s p \<noteq> None)"




text \<open>
  Backends for the examples: one whose allocators succeed and return the given address,
  one whose every call fails.
\<close>

definition backend_ok :: "ptr \<Rightarrow> backend" where
  "backend_ok p = \<lparr>calloc_ret = p, cudaMalloc_ret = (cudaSuccess, p), cudaFree_ret = cudaSuccess\<rparr>"

definition backend_fail :: backend where
  "backend_fail = \<lparr>calloc_ret = 0, cudaMalloc_ret = (cudaErrorMemoryAllocation, 0),
                    cudaFree_ret = cudaErrorInvalidValue\<rparr>"

text \<open>A run that creates three host buffers and reclaims the first in between.\<close>

definition example_calls :: "(backend \<times> call) list" where
  "example_calls =
     [(backend_ok 16, Create 1 CPU 3 1), (backend_ok 32, Create 2 CPU 5 1),
      (backend_ok 0, DecrRef 1 1), (backend_ok 48, Create 3 CPU 2 1)]"

text \<open>
  The store after \<open>CreateData(7, CPU, 10, 2)\<close> on the empty store, where \<open>calloc\<close>
  returned the address 16.
\<close>

definition example_store :: DataStore where
  "example_store =
     \<lparr>data_states = [(7, \<lparr>data_ptrs = (\<lambda>_. 0)(CPU := 16), length' = 10, reference_count = 2\<rparr>)],
      host_heap = [16 \<mapsto> replicate 10 0], device_heap = Map.empty\<rparr>"



text \<open>A run, with \<open>HAS_CUDA\<close>, that gives id 7 a host and a device buffer.\<close>

definition example_both :: "(backend \<times> call) list" where
  "example_both = [(backend_ok 16, Create 7 CPU 10 5), (backend_ok 32, Create 7 GPU 10 5)]"

section \<open>The operations on a known and on an unknown id\<close>

lemma subscript_Some: "map_of tbl i = Some ds \<Longrightarrow> subscript tbl i = (ds, tbl)"
  by (simp add: subscript_def)

lemma update_subscript: "AList.update i v (snd (subscript tbl i)) = AList.update i v tbl"
proof (cases "map_of tbl i")
  case None
  have "AList.update i v (xs @ [(i, d)]) = AList.update i v xs"
    if "map_of xs i = None" for xs :: "(data_id \<times> DataState) list" and d
    using that by (induction xs) (auto split: if_splits)
  with None show ?thesis by (simp add: subscript_def)
next
  case (Some ds)
  then show ?thesis by (simp add: subscript_def)
qed

lemma fst_subscript: "fst (subscript (data_states s) i) = old_state s i"
  by (simp add: subscript_def old_state_def split: option.splits)

lemma GC_live:
  "map_of (data_states s) i = Some ds \<Longrightarrow>
   GC H be s i =
     (if H \<and> data_ptrs ds GPU \<noteq> 0 \<and> cudaFree_ret be \<noteq> cudaSuccess then Inl CudaFreeFailed
      else Inr \<lparr>data_states = AList.delete i (data_states s),
                host_heap = (if data_ptrs ds CPU \<noteq> 0 then (host_heap s)(data_ptrs ds CPU := None)
                             else host_heap s),
                device_heap = (if H \<and> data_ptrs ds GPU \<noteq> 0
                               then (device_heap s)(data_ptrs ds GPU := None)
                               else device_heap s)\<rparr>)"
  by (simp add: GC_def subscript_def Let_def)

lemma CreateData_eq:
  "CreateData H be s i m n rc =
     (if data_ptrs (old_state s i) m \<noteq> 0 then Inl AlreadyCreated
      else if \<not> (length' (old_state s i) = 0 \<or> length' (old_state s i) = n) then Inl LengthMismatch
      else if m = CPU then
        Inr (s\<lparr>data_states := AList.update i
                  ((old_state s i)\<lparr>length' := n, reference_count := rc,
                     data_ptrs := (data_ptrs (old_state s i))(CPU := calloc_ret be)\<rparr>) (data_states s),
               host_heap := (if calloc_ret be = 0 then host_heap s
                             else (host_heap s)(calloc_ret be \<mapsto> replicate (unat n) 0))\<rparr>)
      else if \<not> H then Inl NoCuda
      else if fst (cudaMalloc_ret be) \<noteq> cudaSuccess then Inl CudaMallocFailed
      else
        Inr (s\<lparr>data_states := AList.update i
                  ((old_state s i)\<lparr>length' := n, reference_count := rc,
                     data_ptrs := (data_ptrs (old_state s i))(GPU := snd (cudaMalloc_ret be))\<rparr>) (data_states s),
               device_heap := (if snd (cudaMalloc_ret be) = 0 then device_heap s
                               else (device_heap s)(snd (cudaMalloc_ret be) \<mapsto> n * 4))\<rparr>))"
  by (cases m)
     (simp_all add: CreateData_def Let_def case_prod_beta fst_subscript update_subscript)

lemma DecrReferenceCount_live:
  "map_of (data_states s) i = Some ds \<Longrightarrow>
   DecrReferenceCount H be s i k =
     (if \<not> sint k \<le> sint (reference_count ds) then Inl DecreaseMoreThanHas
      else if reference_count ds = k then
        (if H \<and> data_ptrs ds GPU \<noteq> 0 \<and> cudaFree_ret be \<noteq> cudaSuccess then Inl CudaFreeFailed
         else Inr (True,
               \<lparr>data_states = AList.delete i (data_states s),
                host_heap = (if data_ptrs ds CPU \<noteq> 0 then (host_heap s)(data_ptrs ds CPU := None)
                             else host_heap s),
                device_heap = (if H \<and> data_ptrs ds GPU \<noteq> 0
                               then (device_heap s)(data_ptrs ds GPU := None)
                               else device_heap s)\<rparr>))
      else Inr (False, s\<lparr>data_states :=
                  AList.update i (ds\<lparr>reference_count := reference_count ds - k\<rparr>) (data_states s)\<rparr>))"
  by (simp add: DecrReferenceCount_def CheckValidity_def subscript_def Let_def GC_live update_conv'
        delete_update_same)

lemma SetReferenceCount_live:
  "map_of (data_states s) i = Some ds \<Longrightarrow>
   SetReferenceCount H be s i rc =
     (if \<not> 0 \<le> sint rc then Inl InvalidRc
      else if rc = 0 then
        (if H \<and> data_ptrs ds GPU \<noteq> 0 \<and> cudaFree_ret be \<noteq> cudaSuccess then Inl CudaFreeFailed
         else Inr (True,
               \<lparr>data_states = AList.delete i (data_states s),
                host_heap = (if data_ptrs ds CPU \<noteq> 0 then (host_heap s)(data_ptrs ds CPU := None)
                             else host_heap s),
                device_heap = (if H \<and> data_ptrs ds GPU \<noteq> 0
                               then (device_heap s)(data_ptrs ds GPU := None)
                               else device_heap s)\<rparr>))
      else Inr (False, s\<lparr>data_states :=
                  AList.update i (ds\<lparr>reference_count := rc\<rparr>) (data_states s)\<rparr>))"
  by (simp add: SetReferenceCount_def CheckValidity_def subscript_def Let_def GC_live update_conv'
        delete_update_same)

lemma FreeData_live:
  "map_of (data_states s) i = Some ds \<Longrightarrow>
   FreeData H be s i =
     (if H \<and> data_ptrs ds GPU \<noteq> 0 \<and> cudaFree_ret be \<noteq> cudaSuccess then Inl CudaFreeFailed
      else Inr \<lparr>data_states = AList.delete i (data_states s),
                host_heap = (if data_ptrs ds CPU \<noteq> 0 then (host_heap s)(data_ptrs ds CPU := None)
                             else host_heap s),
                device_heap = (if H \<and> data_ptrs ds GPU \<noteq> 0
                               then (device_heap s)(data_ptrs ds GPU := None)
                               else device_heap s)\<rparr>)"
  by (simp add: FreeData_def CheckValidity_def GC_live)

lemma GetData_live:
  "map_of (data_states s) i = Some ds \<Longrightarrow>
   GetData s i m = (if data_ptrs ds m = 0 then Inl NullData else Inr (data_ptrs ds m, s))"
  by (simp add: GetData_def CheckValidity_def subscript_def)

lemma GetReferenceCount_live:
  "map_of (data_states s) i = Some ds \<Longrightarrow> GetReferenceCount s i = Inr (reference_count ds)"
  by (simp add: GetReferenceCount_def CheckValidity_def)

lemma absent_ops:
  assumes "map_of (data_states s) i = None"
  shows "GetData s i m = Inl NotCreated"
    and "GetReferenceCount s i = Inl NotCreated"
    and "IncrReferenceCount H be s i a = Inl NotCreated"
    and "DecrReferenceCount H be s i a = Inl NotCreated"
    and "SetReferenceCount H be s i rc = Inl NotCreated"
    and "FreeData H be s i = Inl NotCreated"
  using assms
  by (simp_all add: GetData_def GetReferenceCount_def IncrReferenceCount_def
        DecrReferenceCount_def SetReferenceCount_def FreeData_def CheckValidity_def)

section \<open>What a returning call does to the table\<close>

lemma Decr_table:
  assumes "DecrReferenceCount H be s j k = Inr (b, s')"
  shows "(\<exists>ds. map_of (data_states s) j = Some ds \<and> data_states s' = AList.delete j (data_states s))
       \<or> (\<exists>ds rc. map_of (data_states s) j = Some ds \<and> rc \<noteq> 0 \<and>
             data_states s' = AList.update j (ds\<lparr>reference_count := rc\<rparr>) (data_states s))"
proof (cases "map_of (data_states s) j")
  case None
  with assms show ?thesis by (simp add: absent_ops)
next
  case (Some ds)
  show ?thesis
  proof (cases "reference_count ds = k")
    case True
    with assms Some show ?thesis
      by (auto simp: DecrReferenceCount_live split: if_splits)
  next
    case False
    then have "reference_count ds - k \<noteq> 0" by simp
    moreover from assms Some False
    have "data_states s' = AList.update j (ds\<lparr>reference_count := reference_count ds - k\<rparr>) (data_states s)"
      by (auto simp: DecrReferenceCount_live split: if_splits)
    ultimately show ?thesis using Some by blast
  qed
qed

lemma Set_table:
  assumes "SetReferenceCount H be s j rc = Inr (b, s')"
  shows "(\<exists>ds. map_of (data_states s) j = Some ds \<and> data_states s' = AList.delete j (data_states s))
       \<or> (\<exists>ds rc. map_of (data_states s) j = Some ds \<and> rc \<noteq> 0 \<and>
             data_states s' = AList.update j (ds\<lparr>reference_count := rc\<rparr>) (data_states s))"
proof (cases "map_of (data_states s) j")
  case None
  with assms show ?thesis by (simp add: absent_ops)
next
  case (Some ds)
  show ?thesis
  proof (cases "rc = 0")
    case True
    with assms Some show ?thesis
      by (auto simp: SetReferenceCount_live split: if_splits)
  next
    case False
    moreover from assms Some False
    have "data_states s' = AList.update j (ds\<lparr>reference_count := rc\<rparr>) (data_states s)"
      by (auto simp: SetReferenceCount_live split: if_splits)
    ultimately show ?thesis using Some by blast
  qed
qed

text \<open>
  Every returning call leaves the table as it was, erases one known id, rewrites the count
  of one known id to a non-zero value, or is a \<open>CreateData\<close> that writes one record.
\<close>

lemma step_table:
  assumes "step H be s c = Inr (r, s')"
  shows "data_states s' = data_states s
       \<or> (\<exists>j ds. map_of (data_states s) j = Some ds \<and> data_states s' = AList.delete j (data_states s))
       \<or> (\<exists>j ds rc. map_of (data_states s) j = Some ds \<and> rc \<noteq> 0 \<and>
             data_states s' = AList.update j (ds\<lparr>reference_count := rc\<rparr>) (data_states s))
       \<or> (\<exists>j m n rc p. c = Create j m n rc \<and> (m = GPU \<longrightarrow> H) \<and> data_ptrs (old_state s j) m = 0 \<and>
             data_states s' = AList.update j
               ((old_state s j)\<lparr>length' := n, reference_count := rc,
                  data_ptrs := (data_ptrs (old_state s j))(m := p)\<rparr>) (data_states s))"
proof (cases c)
  case (Create j m n rc)
  with assms show ?thesis
    by (cases m) (auto simp: CreateData_eq split: if_splits)
next
  case (Get j m)
  with assms show ?thesis
    by (cases "map_of (data_states s) j") (auto simp: absent_ops GetData_live split: if_splits)
next
  case (IncrRef j a)
  with assms obtain b where "DecrReferenceCount H be s j (- a) = Inr (b, s')"
    by (auto simp: IncrReferenceCount_def split: sum.splits)
  from Decr_table[OF this] show ?thesis by blast
next
  case (DecrRef j a)
  with assms obtain b where "DecrReferenceCount H be s j a = Inr (b, s')"
    by (auto split: sum.splits)
  from Decr_table[OF this] show ?thesis by blast
next
  case (SetRef j rc)
  with assms obtain b where "SetReferenceCount H be s j rc = Inr (b, s')"
    by (auto split: sum.splits)
  from Set_table[OF this] show ?thesis by blast
next
  case (GetRef j)
  with assms show ?thesis by (auto split: sum.splits)
next
  case (TotalBytes m)
  with assms show ?thesis by auto
next
  case (Free j)
  with assms show ?thesis
    by (cases "map_of (data_states s) j")
       (auto simp: absent_ops FreeData_live split: if_splits)
qed

text \<open>A property that every returning call preserves holds at the end of a run.\<close>

lemma run_invariant:
  assumes "run H s calls = Inr s'"
    and "P s"
    and "\<And>be c t r t'. (be, c) \<in> set calls \<Longrightarrow> P t \<Longrightarrow> step H be t c = Inr (r, t') \<Longrightarrow> P t'"
  shows "P s'"
  using assms
proof (induction calls arbitrary: s)
  case Nil
  then show ?case by simp
next
  case (Cons bc calls)
  obtain be c where bc: "bc = (be, c)" by (cases bc)
  from Cons.prems(1) bc obtain r s1
    where st: "step H be s c = Inr (r, s1)" and rest: "run H s1 calls = Inr s'"
    by (auto split: sum.splits)
  have "P s1" using Cons.prems(3)[of be c s r s1] Cons.prems(2) st bc by simp
  moreover have "P t'" if "(be', c') \<in> set calls" "P t" "step H be' t c' = Inr (r', t')"
    for be' c' t r' t'
    using Cons.prems(3)[of be' c' t r' t'] that by simp
  ultimately show ?case using Cons.IH[OF rest] by blast
qed

lemma absent_step:
  assumes "step H be s c = Inr (r, s')" "map_of (data_states s) i = None" "\<not> creates i c"
  shows "map_of (data_states s') i = None"
  using step_table[OF assms(1)] assms(2,3)
  by (auto simp: update_conv' delete_conv')

lemma absent_run:
  assumes "run H s calls = Inr s'" "map_of (data_states s) i = None" "never_creates i calls"
  shows "map_of (data_states s') i = None"
proof (rule run_invariant[OF assms(1), where P = "\<lambda>t. map_of (data_states t) i = None"])
  show "map_of (data_states s) i = None" by (rule assms(2))
next
  fix be c t r t'
  assume "(be, c) \<in> set calls" "map_of (data_states t) i = None" "step H be t c = Inr (r, t')"
  moreover from this(1) assms(3) have "\<not> creates i c"
    by (auto simp: never_creates_def list_all_iff)
  ultimately show "map_of (data_states t') i = None" by (blast intro: absent_step)
qed

section \<open>Unknown ids\<close>

text \<open>
  C3. An id that is unknown to the store (never created, or reclaimed), and that no call
  since has created, makes each of \<open>GetData\<close>, \<open>GetReferenceCount\<close>,
  \<open>IncrReferenceCount\<close>, \<open>DecrReferenceCount\<close>, \<open>SetReferenceCount\<close> and \<open>FreeData\<close>
  abort on \<open>CHECK(CheckValidity(id))\<close>: none of them returns a value.
\<close>

theorem unknown_id_aborts:
  assumes "map_of (data_states s0) i = None"
    and "never_creates i calls"
    and "run H s0 calls = Inr s"
  shows "GetData s i m = Inl NotCreated \<and>
         GetReferenceCount s i = Inl NotCreated \<and>
         IncrReferenceCount H be s i a = Inl NotCreated \<and>
         DecrReferenceCount H be s i a = Inl NotCreated \<and>
         SetReferenceCount H be s i rc = Inl NotCreated \<and>
         FreeData H be s i = Inl NotCreated"
  using absent_ops[OF absent_run[OF assms(3) assms(1) assms(2)]] by simp

theorem unknown_id_aborts_witness:
  "run False DataStore_init
     [(backend_ok 16, Create 3 CPU 2 1), (backend_ok 16, DecrRef 3 1)] = Inr DataStore_init \<and>
   GetData DataStore_init 7 GPU = Inl NotCreated \<and>
   GetReferenceCount DataStore_init 7 = Inl NotCreated \<and>
   IncrReferenceCount False backend_fail DataStore_init 7 1 = Inl NotCreated \<and>
   DecrReferenceCount False backend_fail DataStore_init 7 1 = Inl NotCreated \<and>
   SetReferenceCount False backend_fail DataStore_init 7 5 = Inl NotCreated \<and>
   FreeData False backend_fail DataStore_init 7 = Inl NotCreated"
proof -
  have a: "map_of (data_states DataStore_init) (7::data_id) = None"
    by (simp add: DataStore_init_def)
  have b: "never_creates 7 [(backend_ok 16, Create 3 CPU 2 1), (backend_ok 16, DecrRef 3 1)]"
    by (simp add: never_creates_def)
  have c: "run False DataStore_init
             [(backend_ok 16, Create 3 CPU 2 1), (backend_ok 16, DecrRef 3 1)] = Inr DataStore_init"
    by (simp add: DataStore_init_def backend_ok_def CreateData_def subscript_def
          DataState_init_def DecrReferenceCount_def CheckValidity_def GC_def)
  from unknown_id_aborts[OF a b c, of GPU backend_fail 1 5] c show ?thesis by simp
qed

section \<open>Total bytes\<close>

lemma distinct_step:
  assumes "step H be s c = Inr (r, s')" "distinct (map fst (data_states s))"
  shows "distinct (map fst (data_states s'))"
  using step_table[OF assms(1)] assms(2)
  by (auto simp: distinct_update distinct_delete)

lemma distinct_run:
  assumes "run H DataStore_init calls = Inr s"
  shows "distinct (map fst (data_states s))"
proof (rule run_invariant[OF assms, where P = "\<lambda>t. distinct (map fst (data_states t))"])
  show "distinct (map fst (data_states DataStore_init))" by (simp add: DataStore_init_def)
qed (rule distinct_step)

lemma fold_total_bytes:
  "fold (\<lambda>it total_bytes.
           if data_ptrs (snd it) m \<noteq> 0 then total_bytes + length' (snd it) * 4 else total_bytes) xs a
   = a + sum_list (map (\<lambda>it. if data_ptrs (snd it) m \<noteq> 0 then length' (snd it) * 4 else 0) xs)"
  by (induction xs arbitrary: a) (simp_all add: add.assoc)

lemma holders_image:
  assumes "distinct (map fst (data_states s))"
  shows "holders s m = fst ` {it \<in> set (data_states s). data_ptrs (snd it) m \<noteq> 0}"
proof (rule set_eqI)
  fix i
  show "i \<in> holders s m \<longleftrightarrow> i \<in> fst ` {it \<in> set (data_states s). data_ptrs (snd it) m \<noteq> 0}"
  proof
    assume "i \<in> holders s m"
    then obtain ds where "map_of (data_states s) i = Some ds" "data_ptrs ds m \<noteq> 0"
      by (auto simp: holders_def split: option.splits)
    then have "(i, ds) \<in> {it \<in> set (data_states s). data_ptrs (snd it) m \<noteq> 0}"
      by (auto dest: map_of_SomeD)
    then show "i \<in> fst ` {it \<in> set (data_states s). data_ptrs (snd it) m \<noteq> 0}"
      by force
  next
    assume "i \<in> fst ` {it \<in> set (data_states s). data_ptrs (snd it) m \<noteq> 0}"
    then obtain ds where in_tbl: "(i, ds) \<in> set (data_states s)" and p: "data_ptrs ds m \<noteq> 0"
      by auto
    from map_of_is_SomeI[OF assms in_tbl] p in_tbl show "i \<in> holders s m"
      by (force simp: holders_def)
  qed
qed

lemma total_bytes_distinct:
  assumes d: "distinct (map fst (data_states s))"
  shows "GetTotalBytes s m = (\<Sum>i\<in>holders s m. length_of s i * 4)"
proof -
  let ?xs = "data_states s"
  let ?A = "{it \<in> set ?xs. data_ptrs (snd it) m \<noteq> 0}"
  from d have dx: "distinct ?xs" and inj: "inj_on fst (set ?xs)"
    by (simp_all add: distinct_map)
  have injA: "inj_on fst ?A" by (rule inj_on_subset[OF inj]) auto
  have len: "length_of s (fst it) = length' (snd it)" if "it \<in> set ?xs" for it
  proof -
    obtain k v where it: "it = (k, v)" by (cases it)
    with that have "map_of ?xs k = Some v" using map_of_is_SomeI[OF d] by simp
    with it show ?thesis by (simp add: length_of_def)
  qed
  have "GetTotalBytes s m
        = sum_list (map (\<lambda>it. if data_ptrs (snd it) m \<noteq> 0 then length' (snd it) * 4 else 0) ?xs)"
    by (simp only: GetTotalBytes_def fold_total_bytes add_0_left)
  also have "\<dots> = (\<Sum>it\<in>set ?xs. if data_ptrs (snd it) m \<noteq> 0 then length' (snd it) * 4 else 0)"
    by (rule sum_list_distinct_conv_sum_set[OF dx])
  also have "\<dots> = (\<Sum>it\<in>?A. length' (snd it) * 4)"
    by (simp add: sum.inter_filter)
  also have "\<dots> = (\<Sum>it\<in>?A. length_of s (fst it) * 4)"
    by (rule sum.cong) (simp_all add: len)
  also have "\<dots> = (\<Sum>i\<in>fst ` ?A. length_of s i * 4)"
    by (simp only: sum.reindex[OF injA] o_def)
  finally show ?thesis by (simp add: holders_image[OF d])
qed

lemma unat_sum_word:
  fixes f :: "'a \<Rightarrow> 'b::len word"
  shows "finite A \<Longrightarrow> unat (sum f A) = (\<Sum>i\<in>A. unat (f i)) mod 2 ^ LENGTH('b)"
  by (induction A rule: finite_induct) (simp_all add: unat_word_ariths mod_simps)

lemma finite_holders: "finite (holders s m)"
  by (simp add: holders_def)

text \<open>
  C4. In every state the store can reach, \<open>GetTotalBytes\<close> of a memory type is the sum
  of \<open>length * sizeof(float)\<close>, with \<open>sizeof(float) = 4\<close>, over exactly the ids whose
  record holds a pointer for that memory type. The sum is one of \<open>size_t\<close>: read as a
  natural number it is the sum of the byte sizes modulo \<open>2 ^ 64\<close>.
\<close>

theorem GetTotalBytes_sum:
  assumes "run H DataStore_init calls = Inr s"
  shows "GetTotalBytes s m = (\<Sum>i\<in>holders s m. length_of s i * 4) \<and>
         unat (GetTotalBytes s m) = (\<Sum>i\<in>holders s m. unat (length_of s i) * 4) mod 2 ^ 64"
proof -
  have eq: "GetTotalBytes s m = (\<Sum>i\<in>holders s m. length_of s i * 4)"
    by (rule total_bytes_distinct[OF distinct_run[OF assms]])
  have "unat (\<Sum>i\<in>holders s m. length_of s i * 4)
        = (\<Sum>i\<in>holders s m. unat (length_of s i * 4)) mod 2 ^ 64"
    using unat_sum_word[OF finite_holders, of "\<lambda>i. length_of s i * 4" s m] by simp
  also have "\<dots> = (\<Sum>i\<in>holders s m. unat (length_of s i) * 4 mod 2 ^ 64) mod 2 ^ 64"
    by (simp add: unat_word_ariths)
  also have "\<dots> = (\<Sum>i\<in>holders s m. unat (length_of s i) * 4) mod 2 ^ 64"
    by (rule mod_sum_eq)
  finally show ?thesis using eq by simp
qed

theorem GetTotalBytes_sum_witness:
  "\<not> aborts (run False DataStore_init example_calls) \<and>
   holders (projr (run False DataStore_init example_calls)) CPU = {2, 3} \<and>
   length_of (projr (run False DataStore_init example_calls)) 2 = 5 \<and>
   length_of (projr (run False DataStore_init example_calls)) 3 = 2 \<and>
   GetTotalBytes (projr (run False DataStore_init example_calls)) CPU = 28 \<and>
   GetTotalBytes (projr (run False DataStore_init example_calls)) GPU = 0"
proof -
  let ?s = "\<lparr>data_states =
               [(2, \<lparr>data_ptrs = (\<lambda>_. 0)(CPU := 32), length' = 5, reference_count = 1\<rparr>),
                (3, \<lparr>data_ptrs = (\<lambda>_. 0)(CPU := 48), length' = 2, reference_count = 1\<rparr>)],
             host_heap = [32 \<mapsto> replicate 5 0, 48 \<mapsto> replicate 2 0],
             device_heap = Map.empty\<rparr>"
  have r: "run False DataStore_init example_calls = Inr ?s"
    by (simp add: example_calls_def DataStore_init_def backend_ok_def CreateData_def
          subscript_def DataState_init_def DecrReferenceCount_def CheckValidity_def GC_def)
  have h: "holders ?s CPU = {2, 3}" "holders ?s GPU = {}"
    by (auto simp: holders_def)
  have l: "length_of ?s 2 = 5" "length_of ?s 3 = 2"
    by (simp_all add: length_of_def)
  from GetTotalBytes_sum[OF r, of CPU] GetTotalBytes_sum[OF r, of GPU] show ?thesis
    by (simp add: r h l aborts_def)
qed

section \<open>Queries leave the store as it is\<close>

text \<open>
  C10. \<open>GetData\<close>, \<open>GetReferenceCount\<close> and \<open>GetTotalBytes\<close> are read-only: whenever
  one of them returns, the store after the call (the table with every record's length,
  count and pointers, and both heaps) is the store before it. \<open>GetData\<close> returns only
  for an id that already has a record: its two \<open>data_states[id]\<close> accesses come after
  \<open>CHECK(CheckValidity(id))\<close> and never insert one.
\<close>

theorem queries_read_only:
  "(\<forall>p s'. GetData s i m = Inr (p, s') \<longrightarrow> s' = s \<and> map_of (data_states s) i \<noteq> None) \<and>
   (\<forall>r s'. step H be s (Get i m) = Inr (r, s') \<longrightarrow> s' = s) \<and>
   (\<forall>r s'. step H be s (GetRef i) = Inr (r, s') \<longrightarrow> s' = s) \<and>
   (\<forall>r s'. step H be s (TotalBytes m) = Inr (r, s') \<longrightarrow> s' = s)"
proof -
  have g: "s' = s \<and> map_of (data_states s) i \<noteq> None" if "GetData s i m = Inr (p, s')" for p s'
    using that
    by (cases "map_of (data_states s) i") (auto simp: absent_ops GetData_live split: if_splits)
  then show ?thesis by (auto split: sum.splits)
qed

theorem queries_read_only_witness:
  "GetData example_store 7 CPU = Inr (16, example_store) \<and>
   step False backend_fail example_store (Get 7 CPU) = Inr (RPtr 16, example_store) \<and>
   step False backend_fail example_store (GetRef 7) = Inr (RInt 2, example_store) \<and>
   step False backend_fail example_store (TotalBytes CPU) = Inr (RSize 40, example_store)"
proof -
  have g: "GetData example_store 7 CPU = Inr (16, example_store)"
    using queries_read_only[of example_store 7 CPU False backend_fail]
    by (simp add: example_store_def GetData_def CheckValidity_def subscript_def)
  then show ?thesis
    by (simp add: example_store_def GetReferenceCount_def CheckValidity_def GetTotalBytes_def)
qed

section \<open>Creation on the host\<close>

text \<open>
  C2, as the code has it. \<open>CreateData\<close> stores what \<open>calloc\<close> returns without looking at
  it. For an id without a record, every length \<open>n\<close> and every initial count \<open>rc\<close>: when
  \<open>calloc\<close> returns a non-null pointer, \<open>CreateData(id, CPU, n, rc)\<close> returns, the
  \<open>GetData(id, CPU)\<close> that follows returns that pointer, and the block it points to holds
  \<open>n\<close> elements, all zero.
\<close>

theorem CreateData_then_GetData_zeroed:
  assumes "map_of (data_states s) i = None" and "calloc_ret be \<noteq> 0"
  shows "\<exists>s'. CreateData H be s i CPU n rc = Inr s' \<and>
              GetData s' i CPU = Inr (calloc_ret be, s') \<and>
              host_heap s' (calloc_ret be) = Some (replicate (unat n) 0) \<and>
              GetReferenceCount s' i = Inr rc"
proof -
  let ?ds = "DataState_init\<lparr>length' := n, reference_count := rc,
                data_ptrs := (data_ptrs DataState_init)(CPU := calloc_ret be)\<rparr>"
  let ?s' = "s\<lparr>data_states := AList.update i ?ds (data_states s),
               host_heap := (host_heap s)(calloc_ret be \<mapsto> replicate (unat n) 0)\<rparr>"
  from assms have c: "CreateData H be s i CPU n rc = Inr ?s'"
    by (simp add: CreateData_eq old_state_def DataState_init_def)
  have l: "map_of (data_states ?s') i = Some ?ds" by (simp add: update_conv')
  from assms(2) have "GetData ?s' i CPU = Inr (calloc_ret be, ?s')"
    by (simp add: GetData_live[OF l])
  moreover have "GetReferenceCount ?s' i = Inr rc"
    by (simp add: GetReferenceCount_live[OF l])
  ultimately show ?thesis using c by simp
qed

theorem CreateData_then_GetData_zeroed_witness:
  "map_of (data_states DataStore_init) 7 = None \<and> calloc_ret (backend_ok 16) \<noteq> 0 \<and>
   CreateData False (backend_ok 16) DataStore_init 7 CPU 10 2 = Inr example_store \<and>
   GetData example_store 7 CPU = Inr (16, example_store) \<and>
   host_heap example_store 16 = Some [0, 0, 0, 0, 0, 0, 0, 0, 0, 0]"
proof -
  have a: "map_of (data_states DataStore_init) (7::data_id) = None"
    by (simp add: DataStore_init_def)
  have b: "calloc_ret (backend_ok 16) \<noteq> 0" by (simp add: backend_ok_def)
  have c: "CreateData False (backend_ok 16) DataStore_init 7 CPU 10 2 = Inr example_store"
    by (simp add: CreateData_def subscript_def DataStore_init_def DataState_init_def
          backend_ok_def example_store_def)
  have z: "replicate 10 (0::float_bits) = [0, 0, 0, 0, 0, 0, 0, 0, 0, 0]"
    by (simp add: numeral_eq_Suc)
  from CreateData_then_GetData_zeroed[OF a b, of False 10 2] a b c z show ?thesis
    by (simp add: backend_ok_def)
qed

text \<open>
  C2 as stated fails: for \<open>n = 2 ^ 62\<close> elements (\<open>2 ^ 64\<close> bytes) \<open>calloc\<close> returns null,
  \<open>CreateData\<close> returns all the same, and the \<open>GetData\<close> that follows aborts on
  \<open>CHECK_NE(ds.data_ptrs[type], 0)\<close>.
\<close>

theorem host_allocation_failure_counterexample:
  "map_of (data_states DataStore_init) 7 = None \<and>
   \<not> aborts (CreateData False backend_fail DataStore_init 7 CPU 4611686018427387904 1) \<and>
   GetData (projr (CreateData False backend_fail DataStore_init 7 CPU 4611686018427387904 1)) 7 CPU
     = Inl NullData"
  by (simp add: CreateData_def subscript_def DataStore_init_def DataState_init_def
        backend_fail_def aborts_def GetData_def CheckValidity_def)

text \<open>
  C9. The device branch checks \<open>cudaMalloc\<close> (\<open>CHECK_EQ(.., cudaSuccess)\<close>); the host
  branch does not check \<open>calloc\<close>. With a failing \<open>calloc\<close>, \<open>CreateData\<close> on the host
  returns and leaves a record whose host pointer is null; with a failing \<open>cudaMalloc\<close>,
  \<open>CreateData\<close> on the device aborts.
\<close>

theorem CreateData_unchecked_calloc:
  "CreateData False backend_fail DataStore_init 7 CPU 4 1 =
     Inr \<lparr>data_states = [(7, \<lparr>data_ptrs = (\<lambda>_. 0), length' = 4, reference_count = 1\<rparr>)],
          host_heap = Map.empty, device_heap = Map.empty\<rparr> \<and>
   CreateData True backend_fail DataStore_init 7 GPU 4 1 = Inl CudaMallocFailed"
  by (simp add: CreateData_def subscript_def DataStore_init_def DataState_init_def
        backend_fail_def fun_upd_idem)

text \<open>
  C6. \<open>SetReferenceCount\<close> refuses a negative count (\<open>CHECK_GE(rc, 0)\<close>); \<open>CreateData\<close>
  stores its \<open>rc\<close> argument unchecked. \<open>CreateData(7, CPU, 4, -1)\<close> returns and leaves the
  record of id 7 with the count \<open>-1\<close>.
\<close>

theorem CreateData_negative_count:
  "CreateData False (backend_ok 16) DataStore_init 7 CPU 4 (- 1) =
     Inr \<lparr>data_states = [(7, \<lparr>data_ptrs = (\<lambda>_. 0)(CPU := 16), length' = 4, reference_count = - 1\<rparr>)],
          host_heap = [16 \<mapsto> [0, 0, 0, 0]], device_heap = Map.empty\<rparr> \<and>
   GetReferenceCount
     (projr (CreateData False (backend_ok 16) DataStore_init 7 CPU 4 (- 1))) 7 = Inr (- 1) \<and>
   sint (- 1 :: c_int) = - 1 \<and>
   SetReferenceCount False (backend_ok 16)
     (projr (CreateData False (backend_ok 16) DataStore_init 7 CPU 4 1)) 7 (- 1) = Inl InvalidRc"
proof -
  have z: "replicate 4 (0::float_bits) = [0, 0, 0, 0]"
    by (simp add: numeral_eq_Suc)
  show ?thesis
    by (simp add: CreateData_def subscript_def DataStore_init_def DataState_init_def
          backend_ok_def GetReferenceCount_def CheckValidity_def SetReferenceCount_def z)
qed

section \<open>Decrementing the reference count\<close>

lemma absent_then_aborts:
  assumes "map_of (data_states s) i = None" "never_creates i calls" "run H s calls = Inr s'"
  shows "GetData s' i m = Inl NotCreated" "GetReferenceCount s' i = Inl NotCreated"
    "IncrReferenceCount H be s' i a = Inl NotCreated"
    "DecrReferenceCount H be s' i a = Inl NotCreated"
    "SetReferenceCount H be s' i rc = Inl NotCreated"
    "FreeData H be s' i = Inl NotCreated"
  using absent_ops[OF absent_run[OF assms(3) assms(1) assms(2)]] by simp_all



section \<open>Zero reference counts\<close>












section \<open>Length mismatch\<close>





section \<open>Forced reclamation\<close>

lemma no_cuda_step:
  assumes st: "step H be s c = Inr (r, s')" and nc: "\<not> H"
    and inv: "\<forall>i ds. map_of (data_states s) i = Some ds \<longrightarrow> data_ptrs ds GPU = 0"
  shows "\<forall>i ds. map_of (data_states s') i = Some ds \<longrightarrow> data_ptrs ds GPU = 0"
proof -
  from inv have "data_ptrs (old_state s j) GPU = 0" for j
    by (auto simp: old_state_def DataState_init_def split: option.splits)
  with step_table[OF st] nc inv show ?thesis
    by (auto simp: update_conv' delete_conv' split: if_splits)
qed

lemma no_cuda_run:
  assumes "run H DataStore_init calls = Inr s" "\<not> H" "map_of (data_states s) i = Some ds"
  shows "data_ptrs ds GPU = 0"
proof -
  have "\<forall>i ds. map_of (data_states s) i = Some ds \<longrightarrow> data_ptrs ds GPU = 0"
  proof (rule run_invariant[OF assms(1),
        where P = "\<lambda>t. \<forall>i ds. map_of (data_states t) i = Some ds \<longrightarrow> data_ptrs ds GPU = 0"])
    show "\<forall>i ds. map_of (data_states DataStore_init) i = Some ds \<longrightarrow> data_ptrs ds GPU = 0"
      by (simp add: DataStore_init_def)
  qed (rule no_cuda_step[OF _ assms(2)])
  with assms(3) show ?thesis by blast
qed

text \<open>
  C8. In every state the store can reach: \<open>FreeData\<close> on an unknown id aborts. On an id
  with a record, whatever its reference count, \<open>FreeData\<close> aborts only when \<open>cudaFree\<close>
  of the id's device buffer fails; when it returns, the record is erased, the block behind
  every non-null pointer of the record is released, the other ids keep their records, and
  every later operation on the id other than a \<open>CreateData\<close> aborts, as long as no
  \<open>CreateData\<close> has created the id again.
\<close>

theorem FreeData_reclaims:
  assumes "run H DataStore_init calls = Inr s"
  shows "(map_of (data_states s) i = None \<longrightarrow> FreeData H be s i = Inl NotCreated) \<and>
         (\<forall>ds. map_of (data_states s) i = Some ds \<longrightarrow>
            (aborts (FreeData H be s i) \<longleftrightarrow>
               data_ptrs ds GPU \<noteq> 0 \<and> cudaFree_ret be \<noteq> cudaSuccess) \<and>
            (\<forall>s'. FreeData H be s i = Inr s' \<longrightarrow>
               map_of (data_states s') i = None \<and>
               (\<forall>m. data_ptrs ds m \<noteq> 0 \<longrightarrow> \<not> allocated s' m (data_ptrs ds m)) \<and>
               (\<forall>j. j \<noteq> i \<longrightarrow> map_of (data_states s') j = map_of (data_states s) j) \<and>
               (\<forall>calls' s'' m be' a rc. never_creates i calls' \<longrightarrow> run H s' calls' = Inr s'' \<longrightarrow>
                  GetData s'' i m = Inl NotCreated \<and>
                  GetReferenceCount s'' i = Inl NotCreated \<and>
                  IncrReferenceCount H be' s'' i a = Inl NotCreated \<and>
                  DecrReferenceCount H be' s'' i a = Inl NotCreated \<and>
                  SetReferenceCount H be' s'' i rc = Inl NotCreated \<and>
                  FreeData H be' s'' i = Inl NotCreated)))"
proof (intro conjI allI impI)
  assume "map_of (data_states s) i = None"
  then show "FreeData H be s i = Inl NotCreated" by (rule absent_ops)
next
  fix ds
  assume l: "map_of (data_states s) i = Some ds"
  have g: "data_ptrs ds GPU \<noteq> 0 \<longrightarrow> H"
  proof (cases H)
    case False
    from no_cuda_run[OF assms False l] show ?thesis by simp
  qed simp
  then show "aborts (FreeData H be s i) \<longleftrightarrow>
               data_ptrs ds GPU \<noteq> 0 \<and> cudaFree_ret be \<noteq> cudaSuccess"
    by (auto simp: FreeData_live[OF l] aborts_def)
  fix s'
  assume f: "FreeData H be s i = Inr s'"
  then show a: "map_of (data_states s') i = None"
    by (auto simp: FreeData_live[OF l] delete_conv' split: if_splits)
  {
    fix m
    assume "data_ptrs ds m \<noteq> 0"
    with f g show "\<not> allocated s' m (data_ptrs ds m)"
      by (cases m) (auto simp: FreeData_live[OF l] allocated_def split: if_splits)
  }
  {
    fix j
    assume "j \<noteq> i"
    with f show "map_of (data_states s') j = map_of (data_states s) j"
      by (auto simp: FreeData_live[OF l] delete_conv' split: if_splits)
  }
  fix calls' s'' m be' a rc
  assume n: "never_creates i calls'" and r: "run H s' calls' = Inr s''"
  note ab = absent_then_aborts[OF a n r]
  show "GetData s'' i m = Inl NotCreated" by (rule ab)
  show "GetReferenceCount s'' i = Inl NotCreated" by (rule ab)
  show "IncrReferenceCount H be' s'' i a = Inl NotCreated" by (rule ab)
  show "DecrReferenceCount H be' s'' i a = Inl NotCreated" by (rule ab)
  show "SetReferenceCount H be' s'' i rc = Inl NotCreated" by (rule ab)
  show "FreeData H be' s'' i = Inl NotCreated" by (rule ab)
qed

theorem FreeData_reclaims_witness:
  "\<not> aborts (run True DataStore_init example_both) \<and>
   GetReferenceCount (projr (run True DataStore_init example_both)) 7 = Inr 5 \<and>
   allocated (projr (run True DataStore_init example_both)) CPU 16 \<and>
   allocated (projr (run True DataStore_init example_both)) GPU 32 \<and>
   FreeData True (backend_ok 0) (projr (run True DataStore_init example_both)) 7
     = Inr DataStore_init \<and>
   \<not> allocated DataStore_init CPU 16 \<and> \<not> allocated DataStore_init GPU 32 \<and>
   GetData DataStore_init 7 CPU = Inl NotCreated \<and>
   FreeData True backend_fail DataStore_init 7 = Inl NotCreated \<and>
   FreeData True backend_fail (projr (run True DataStore_init example_both)) 7
     = Inl CudaFreeFailed \<and>
   FreeData True (backend_ok 0) (projr (run True DataStore_init example_both)) 9
     = Inl NotCreated"
proof -
  let ?ds = "\<lparr>data_ptrs = (\<lambda>_. 0)(CPU := 16, GPU := 32), length' = 10, reference_count = 5\<rparr>"
  let ?s = "\<lparr>data_states = [(7, ?ds)], host_heap = [16 \<mapsto> replicate 10 0],
             device_heap = [32 \<mapsto> 40]\<rparr>"
  have r: "run True DataStore_init example_both = Inr ?s"
    by (simp add: example_both_def DataStore_init_def backend_ok_def CreateData_def
          subscript_def DataState_init_def)
  have l: "map_of (data_states ?s) 7 = Some ?ds" and l9: "map_of (data_states ?s) 9 = None"
    by simp_all
  have f: "FreeData True (backend_ok 0) ?s 7 = Inr DataStore_init"
    by (simp add: FreeData_live[OF l] backend_ok_def DataStore_init_def)
  have ff: "FreeData True backend_fail ?s 7 = Inl CudaFreeFailed"
    by (simp add: FreeData_live[OF l] backend_fail_def)
  have n: "never_creates 7 []" "run True DataStore_init [] = Inr DataStore_init"
    by (simp_all add: never_creates_def)
  note t = FreeData_reclaims[OF r, of _ "backend_ok 0"]
  from t[of 9] l9 have f9: "FreeData True (backend_ok 0) ?s 9 = Inl NotCreated"
    by simp
  note t7 = t[of 7, THEN conjunct2, THEN spec, THEN mp, OF l, THEN conjunct2, THEN spec,
      THEN mp, OF f]
  note rel = t7[THEN conjunct2, THEN conjunct1, rule_format]
  from rel[of CPU] rel[of GPU]
  have na: "\<not> allocated DataStore_init CPU 16" "\<not> allocated DataStore_init GPU 32"
    by simp_all
  note later = t7[THEN conjunct2, THEN conjunct2, THEN conjunct2, rule_format, OF n]
  from later[of CPU backend_fail]
  have ab: "GetData DataStore_init 7 CPU = Inl NotCreated"
    "FreeData True backend_fail DataStore_init 7 = Inl NotCreated"
    by simp_all
  show ?thesis
    unfolding r using f ff f9 na ab
    by (simp add: aborts_def GetReferenceCount_live[OF l] allocated_def)
qed

end
